theory Spec2Isabelle
  imports Main "HOL-Library.Char_ord"
begin

section \<open>The token model (token/token.go)\<close>

text \<open>
  \<open>TokenType\<close> is a named string type of the program that is used as an enumeration: its
  values are the constants of the \<open>const\<close> block, one constructor each. The constant
  \<open>INT\<close> is written \<open>INT_tok\<close>, since \<open>INT\<close> is reserved syntax of HOL.
\<close>

text \<open>
  Modelled from the spec: the constants \<open>MINUS\<close>, \<open>BANG\<close>, \<open>ASTERISK\<close>, \<open>SLASH\<close>,
  \<open>LT\<close>, \<open>GT\<close>, \<open>EQ\<close> and \<open>NOT_EQ\<close> are used by the lexer but their declarations are
  not part of the token file at hand; they stand for the kinds \<open>Minus\<close>, \<open>Bang\<close>,
  \<open>Asterisk\<close>, \<open>Slash\<close>, \<open>LessThan\<close>, \<open>GreaterThan\<close>, \<open>Equal\<close> and \<open>NotEqual\<close> of the
  specification's closed enumeration.
\<close>

datatype TokenType =
    ILLEGAL | EOF
  | IDENT | INT_tok
  | ASSIGN | PLUS
  | COMMA | SEMICOLON
  | LPAREN | RPAREN | LBRACE | RBRACE
  | FUNCTION | LET
  | MINUS | BANG | ASTERISK | SLASH | LT | GT | EQ | NOT_EQ

record Token =
  Type :: TokenType
  Literal :: string

text \<open>
  The map \<open>keywords\<close> (written \<open>keywords_map\<close>: the name is reserved in theory
  text) and its lookup with the default \<open>IDENT\<close>.
\<close>

definition keywords_map :: "string \<rightharpoonup> TokenType" where
  "keywords_map = [''fn'' \<mapsto> FUNCTION, ''let'' \<mapsto> LET]"

definition LookupIdent :: "string \<Rightarrow> TokenType" where
  "LookupIdent ident = (case keywords_map ident of Some tok \<Rightarrow> tok | None \<Rightarrow> IDENT)"

section \<open>The lexer\<close>

text \<open>
  A Go string is a sequence of bytes and \<open>l.ch\<close> is a byte: both are modelled with
  \<open>char\<close>, the 8-bit character type, ordered by its byte value. The cursor fields are Go
  \<open>int\<close>s that start at 0 and are only ever incremented by one; they are modelled as
  natural numbers. The wrap-around of a machine \<open>int\<close> is outside the model: it needs
  as many advances as the largest \<open>int\<close> (see \<open>cursor_bound\<close> below).
\<close>

record Lexer =
  input :: string
  position :: nat
  readPosition :: nat
  ch :: char

text \<open>The run-time panics the lexer's code can raise.\<close>

datatype error = SliceBoundsOutOfRange

text \<open>
  The string slice \<open>s[lo:hi]\<close> of Go: it panics unless \<open>lo \<le> hi \<le> len(s)\<close>.
\<close>

definition slice :: "string \<Rightarrow> nat \<Rightarrow> nat \<Rightarrow> error + string" where
  "slice s lo hi =
     (if lo \<le> hi \<and> hi \<le> length s then Inr (take (hi - lo) (drop lo s))
      else Inl SliceBoundsOutOfRange)"

text \<open>
  The conversion \<open>string(b)\<close> of Go, applied to a byte: converting an integer to a string
  gives the UTF-8 encoding of the code point with that value. Below 0x80 that is the
  byte itself; from 0x80 to 0xFF it is two bytes.
\<close>

definition string_of_byte :: "char \<Rightarrow> string" where
  "string_of_byte b =
     (let n = of_char b :: nat
      in if n < 128 then [b]
         else [char_of (192 + n div 64), char_of (128 + n mod 64)])"

definition readChar :: "Lexer \<Rightarrow> Lexer" where
  "readChar l =
     l\<lparr> ch := (if readPosition l \<ge> length (input l) then CHR 0x00
               else input l ! readPosition l),
        position := readPosition l,
        readPosition := readPosition l + 1 \<rparr>"

definition New :: "string \<Rightarrow> Lexer" where
  "New inp = readChar \<lparr> input = inp, position = 0, readPosition = 0, ch = CHR 0x00 \<rparr>"

definition peekChar :: "Lexer \<Rightarrow> char" where
  "peekChar l =
     (if readPosition l \<ge> length (input l) then CHR 0x00
      else input l ! readPosition l)"

definition isDigit :: "char \<Rightarrow> bool" where
  "isDigit c \<longleftrightarrow> CHR ''0'' \<le> c \<and> c \<le> CHR ''9''"

definition isLetter :: "char \<Rightarrow> bool" where
  "isLetter c \<longleftrightarrow>
     (CHR ''a'' \<le> c \<and> c \<le> CHR ''z'') \<or> (CHR ''A'' \<le> c \<and> c \<le> CHR ''Z'') \<or> c = CHR ''_''"

text \<open>The loop condition of \<open>skipWhitespace\<close>: space, tab, newline, carriage return.\<close>

definition isWhitespace :: "char \<Rightarrow> bool" where
  "isWhitespace c \<longleftrightarrow>
     c = CHR '' '' \<or> c = CHR 0x09 \<or> c = CHR 0x0A \<or> c = CHR 0x0D"

text \<open>
  The three loops \<open>for cond(l.ch) { l.readChar() }\<close>. Each one ends: an advance either
  moves \<open>readPosition\<close> towards the end of the input or loads the byte 0, at which all
  three conditions are false.
\<close>

definition loop_measure :: "(char \<Rightarrow> bool) \<Rightarrow> Lexer \<Rightarrow> nat" where
  "loop_measure p l = (if p (ch l) then Suc (length (input l) - readPosition l) else 0)"

function skipWhitespace :: "Lexer \<Rightarrow> Lexer" where
  "skipWhitespace l = (if isWhitespace (ch l) then skipWhitespace (readChar l) else l)"
  by pat_completeness auto
termination
  by (relation "measure (loop_measure isWhitespace)")
     (auto simp: loop_measure_def readChar_def isWhitespace_def)

function readIdentifier_loop :: "Lexer \<Rightarrow> Lexer" where
  "readIdentifier_loop l = (if isLetter (ch l) then readIdentifier_loop (readChar l) else l)"
  by pat_completeness auto
termination
  by (relation "measure (loop_measure isLetter)")
     (auto simp: loop_measure_def readChar_def isLetter_def)

function readNumber_loop :: "Lexer \<Rightarrow> Lexer" where
  "readNumber_loop l = (if isDigit (ch l) then readNumber_loop (readChar l) else l)"
  by pat_completeness auto
termination
  by (relation "measure (loop_measure isDigit)")
     (auto simp: loop_measure_def readChar_def isDigit_def)

declare skipWhitespace.simps [simp del]
declare readIdentifier_loop.simps [simp del]
declare readNumber_loop.simps [simp del]

text \<open>
  \<open>readIdentifier\<close> and \<open>readNumber\<close> remember the start, run their loop and return the
  slice of the input between the start and the new position, with the advanced lexer.
\<close>

definition readIdentifier :: "Lexer \<Rightarrow> error + (string \<times> Lexer)" where
  "readIdentifier l =
     (let position0 = position l; l' = readIdentifier_loop l
      in case slice (input l') position0 (position l') of
           Inl e \<Rightarrow> Inl e
         | Inr s \<Rightarrow> Inr (s, l'))"

definition readNumber :: "Lexer \<Rightarrow> error + (string \<times> Lexer)" where
  "readNumber l =
     (let position0 = position l; l' = readNumber_loop l
      in case slice (input l') position0 (position l') of
           Inl e \<Rightarrow> Inl e
         | Inr s \<Rightarrow> Inr (s, l'))"

definition newToken :: "TokenType \<Rightarrow> char \<Rightarrow> Token" where
  "newToken tokenType c = \<lparr> Type = tokenType, Literal = string_of_byte c \<rparr>"

definition newTwoCharToken :: "TokenType \<Rightarrow> char \<Rightarrow> char \<Rightarrow> Token" where
  "newTwoCharToken tokenType ch1 ch2 =
     \<lparr> Type = tokenType, Literal = string_of_byte ch1 @ string_of_byte ch2 \<rparr>"

text \<open>
  \<open>NextToken\<close>: the switch on \<open>l.ch\<close> in the order of the source. The branches of the
  switch that fall through to the final \<open>l.readChar()\<close> return the advanced lexer; the
  identifier and number branches return early, without it.
\<close>

definition NextToken :: "Lexer \<Rightarrow> error + (Token \<times> Lexer)" where
  "NextToken l0 =
     (let l = skipWhitespace l0 in
      if ch l = CHR ''='' then
        (if peekChar l = CHR ''='' then
           (let c = ch l; l1 = readChar l
            in Inr (newTwoCharToken EQ c (ch l1), readChar l1))
         else Inr (newToken ASSIGN (ch l), readChar l))
      else if ch l = CHR ''+'' then Inr (newToken PLUS (ch l), readChar l)
      else if ch l = CHR ''-'' then Inr (newToken MINUS (ch l), readChar l)
      else if ch l = CHR ''!'' then
        (if peekChar l = CHR ''='' then
           (let c = ch l; l1 = readChar l
            in Inr (newTwoCharToken NOT_EQ c (ch l1), readChar l1))
         else Inr (newToken BANG (ch l), readChar l))
      else if ch l = CHR ''*'' then Inr (newToken ASTERISK (ch l), readChar l)
      else if ch l = CHR ''/'' then Inr (newToken SLASH (ch l), readChar l)
      else if ch l = CHR ''<'' then Inr (newToken LT (ch l), readChar l)
      else if ch l = CHR ''>'' then Inr (newToken GT (ch l), readChar l)
      else if ch l = CHR '','' then Inr (newToken COMMA (ch l), readChar l)
      else if ch l = CHR '';'' then Inr (newToken SEMICOLON (ch l), readChar l)
      else if ch l = CHR ''('' then Inr (newToken LPAREN (ch l), readChar l)
      else if ch l = CHR '')'' then Inr (newToken RPAREN (ch l), readChar l)
      else if ch l = CHR ''{'' then Inr (newToken LBRACE (ch l), readChar l)
      else if ch l = CHR ''}'' then Inr (newToken RBRACE (ch l), readChar l)
      else if ch l = CHR 0x00 then Inr (\<lparr> Type = EOF, Literal = [] \<rparr>, readChar l)
      else if isLetter (ch l) then
        (case readIdentifier l of
           Inl e \<Rightarrow> Inl e
         | Inr (lit, l1) \<Rightarrow> Inr (\<lparr> Type = LookupIdent lit, Literal = lit \<rparr>, l1))
      else if isDigit (ch l) then
        (case readNumber l of
           Inl e \<Rightarrow> Inl e
         | Inr (lit, l1) \<Rightarrow> Inr (\<lparr> Type = INT_tok, Literal = lit \<rparr>, l1))
      else Inr (newToken ILLEGAL (ch l), readChar l))"

section \<open>Runs of the lexer\<close>

text \<open>
  \<open>nextTokens n l\<close> calls \<open>NextToken\<close> \<open>n\<close> times in a row on the same lexer and collects
  the tokens in the order they are returned; a panic ends the run.
\<close>

fun nextTokens :: "nat \<Rightarrow> Lexer \<Rightarrow> error + (Token list \<times> Lexer)" where
  "nextTokens 0 l = Inr ([], l)"
| "nextTokens (Suc n) l =
     (case NextToken l of
        Inl e \<Rightarrow> Inl e
      | Inr (t, l') \<Rightarrow>
          (case nextTokens n l' of
             Inl e \<Rightarrow> Inl e
           | Inr (ts, l'') \<Rightarrow> Inr (t # ts, l'')))"

text \<open>
  The states a lexer over \<open>inp\<close> goes through: the one \<open>New\<close> returns, and the one after
  every advance.
\<close>

inductive reachable :: "string \<Rightarrow> Lexer \<Rightarrow> bool" for inp :: string where
  reachable_New: "reachable inp (New inp)"
| reachable_readChar: "reachable inp l \<Longrightarrow> reachable inp (readChar l)"

section \<open>Auxiliary notions for the proofs\<close>

text \<open>
  The cursor invariant: \<open>readPosition\<close> is one past \<open>position\<close>, and \<open>ch\<close> is the input
  byte at \<open>position\<close>, or 0 when \<open>position\<close> is past the last byte.
\<close>

definition cursor_ok :: "Lexer \<Rightarrow> bool" where
  "cursor_ok l \<longleftrightarrow>
     readPosition l = position l + 1 \<and>
     ch l = (if position l < length (input l) then input l ! position l else CHR 0x00)"

text \<open>The input from the current character on.\<close>

definition rest :: "Lexer \<Rightarrow> string" where
  "rest l = drop (position l) (input l)"

text \<open>The tokens of the first \<open>n\<close> calls of \<open>NextToken\<close> on a fresh lexer over \<open>inp\<close>.\<close>

definition tokens :: "nat \<Rightarrow> string \<Rightarrow> error + Token list" where
  "tokens n inp = (case nextTokens n (New inp) of Inl e \<Rightarrow> Inl e | Inr (ts, l) \<Rightarrow> Inr ts)"

section \<open>The cursor invariant and the loops\<close>

lemma readChar_fields [simp]:
  "input (readChar l) = input l"
  "position (readChar l) = readPosition l"
  "readPosition (readChar l) = readPosition l + 1"
  by (simp_all add: readChar_def)

lemma cursor_ok_New: "cursor_ok (New inp)"
  by (simp add: cursor_ok_def New_def readChar_def)

lemma input_New [simp]: "input (New inp) = inp"
  by (simp add: New_def)

lemma cursor_ok_readChar: "cursor_ok l \<Longrightarrow> cursor_ok (readChar l)"
  by (simp add: cursor_ok_def readChar_def)

lemma reachable_cursor_ok: "reachable inp l \<Longrightarrow> cursor_ok l \<and> input l = inp"
  by (induction rule: reachable.induct) (simp_all add: cursor_ok_New cursor_ok_readChar)

lemma ch_rest: "cursor_ok l \<Longrightarrow> ch l = (case rest l of [] \<Rightarrow> CHR 0x00 | c # _ \<Rightarrow> c)"
  by (auto simp: cursor_ok_def rest_def hd_drop_conv_nth split: list.splits
      dest: arg_cong [where f = hd])

lemma rest_readChar: "cursor_ok l \<Longrightarrow> rest (readChar l) = tl (rest l)"
  by (simp add: cursor_ok_def rest_def drop_Suc tl_drop)

lemma funpow_readChar_input [simp]: "input ((readChar ^^ k) l) = input l"
  by (induction k) simp_all

lemma funpow_readChar_ok: "cursor_ok l \<Longrightarrow> cursor_ok ((readChar ^^ k) l)"
  by (induction k) (simp_all add: cursor_ok_readChar)

lemma funpow_readChar_position:
  "cursor_ok l \<Longrightarrow> position ((readChar ^^ k) l) = position l + k"
proof (induction k)
  case 0
  then show ?case by simp
next
  case (Suc k)
  from funpow_readChar_ok [OF Suc.prems, of k]
  have "readPosition ((readChar ^^ k) l) = position ((readChar ^^ k) l) + 1"
    by (simp add: cursor_ok_def)
  with Suc show ?case by simp
qed

lemma funpow_readChar_rest: "cursor_ok l \<Longrightarrow> rest ((readChar ^^ k) l) = drop k (rest l)"
  by (simp add: rest_def funpow_readChar_position add.commute)

lemma loop_funpow:
  assumes f: "\<And>l. f l = (if p (ch l) then f (readChar l) else l)"
    and p0: "\<not> p (CHR 0x00)"
    and ok: "cursor_ok l"
  shows "f l = (readChar ^^ length (takeWhile p (rest l))) l"
  using ok
proof (induction "rest l" arbitrary: l)
  case Nil
  then have "ch l = CHR 0x00" by (simp add: ch_rest)
  with p0 have "f l = l" by (subst f) simp
  with Nil show ?case by simp
next
  case (Cons c cs)
  have rl: "rest l = c # cs" using Cons.hyps(2) by simp
  from rl Cons.prems have c: "ch l = c" by (simp add: ch_rest)
  from rl Cons.prems have r: "rest (readChar l) = cs"
    by (simp add: rest_readChar)
  show ?case
  proof (cases "p c")
    case True
    have "f l = f (readChar l)" using c True by (subst f) simp
    also have "\<dots> = (readChar ^^ length (takeWhile p cs)) (readChar l)"
      using Cons.hyps(1) [of "readChar l"] r Cons.prems by (simp add: cursor_ok_readChar)
    also have "\<dots> = (readChar ^^ length (takeWhile p (rest l))) l"
      using True rl by (simp add: funpow_swap1)
    finally show ?thesis .
  next
    case False
    have "f l = l" using c False by (subst f) simp
    with False rl show ?thesis by simp
  qed
qed

lemma skipWhitespace_funpow:
  "cursor_ok l \<Longrightarrow> skipWhitespace l = (readChar ^^ length (takeWhile isWhitespace (rest l))) l"
  by (rule loop_funpow [OF skipWhitespace.simps]) (simp_all add: isWhitespace_def)

lemma readIdentifier_loop_funpow:
  "cursor_ok l \<Longrightarrow> readIdentifier_loop l = (readChar ^^ length (takeWhile isLetter (rest l))) l"
  by (rule loop_funpow [OF readIdentifier_loop.simps]) (simp_all add: isLetter_def)

lemma readNumber_loop_funpow:
  "cursor_ok l \<Longrightarrow> readNumber_loop l = (readChar ^^ length (takeWhile isDigit (rest l))) l"
  by (rule loop_funpow [OF readNumber_loop.simps]) (simp_all add: isDigit_def)

lemma slice_run:
  assumes "cursor_ok l" "position l \<le> length (input l)"
  shows "slice (input l) (position l) (position l + length (takeWhile p (rest l)))
         = Inr (takeWhile p (rest l))"
proof -
  have "length (takeWhile p (rest l)) \<le> length (rest l)" by (rule length_takeWhile_le)
  also have "\<dots> = length (input l) - position l" by (simp add: rest_def)
  finally have "position l + length (takeWhile p (rest l)) \<le> length (input l)"
    using assms(2) by simp
  moreover have "take (length (takeWhile p (rest l))) (rest l) = takeWhile p (rest l)"
    by (rule takeWhile_eq_take [symmetric])
  ultimately show ?thesis by (simp add: slice_def rest_def)
qed

lemma readIdentifier_run:
  assumes "cursor_ok l" "position l \<le> length (input l)"
  shows "readIdentifier l =
         Inr (takeWhile isLetter (rest l), (readChar ^^ length (takeWhile isLetter (rest l))) l)"
  using assms slice_run [OF assms, of isLetter]
  by (simp add: readIdentifier_def readIdentifier_loop_funpow funpow_readChar_position)

lemma readNumber_run:
  assumes "cursor_ok l" "position l \<le> length (input l)"
  shows "readNumber l =
         Inr (takeWhile isDigit (rest l), (readChar ^^ length (takeWhile isDigit (rest l))) l)"
  using assms slice_run [OF assms, of isDigit]
  by (simp add: readNumber_def readNumber_loop_funpow funpow_readChar_position)

section \<open>One call of NextToken\<close>

lemma run_nonempty:
  assumes "cursor_ok l" "p (ch l)" "\<not> p (CHR 0x00)"
  shows "0 < length (takeWhile p (rest l)) \<and> position l < length (input l)"
proof -
  from assms have "rest l \<noteq> []" by (auto simp: ch_rest)
  moreover from this assms(1,2) have "p (hd (rest l))"
    by (cases "rest l") (simp_all add: ch_rest)
  ultimately show ?thesis by (cases "rest l") (simp_all add: rest_def)
qed

lemma NextToken_letter:
  "isLetter (ch (skipWhitespace l)) \<Longrightarrow>
   NextToken l =
     (case readIdentifier (skipWhitespace l) of
        Inl e \<Rightarrow> Inl e
      | Inr (lit, l1) \<Rightarrow> Inr (\<lparr> Type = LookupIdent lit, Literal = lit \<rparr>, l1))"
  by (auto simp: NextToken_def Let_def isLetter_def)

lemma isDigit_not_isLetter: "isDigit c \<Longrightarrow> \<not> isLetter c"
  by (auto simp: isDigit_def isLetter_def less_eq_char_def)

lemma isDigit_not_op:
  assumes "isDigit c"
  shows "c \<noteq> CHR ''=''" "c \<noteq> CHR ''+''" "c \<noteq> CHR ''-''" "c \<noteq> CHR ''!''"
    "c \<noteq> CHR ''*''" "c \<noteq> CHR ''/''" "c \<noteq> CHR ''<''" "c \<noteq> CHR ''>''"
    "c \<noteq> CHR '',''" "c \<noteq> CHR '';''" "c \<noteq> CHR ''(''" "c \<noteq> CHR '')''"
    "c \<noteq> CHR ''{''" "c \<noteq> CHR ''}''" "c \<noteq> CHR 0x00"
  using assms by (auto simp: isDigit_def)

lemma NextToken_digit:
  "isDigit (ch (skipWhitespace l)) \<Longrightarrow>
   NextToken l =
     (case readNumber (skipWhitespace l) of
        Inl e \<Rightarrow> Inl e
      | Inr (lit, l1) \<Rightarrow> Inr (\<lparr> Type = INT_tok, Literal = lit \<rparr>, l1))"
  by (simp add: NextToken_def Let_def isDigit_not_op isDigit_not_isLetter)

lemma NextToken_other:
  "\<not> isLetter (ch (skipWhitespace l)) \<Longrightarrow> \<not> isDigit (ch (skipWhitespace l)) \<Longrightarrow>
   \<exists>t. NextToken l = Inr (t, readChar (skipWhitespace l)) \<or>
       NextToken l = Inr (t, readChar (readChar (skipWhitespace l)))"
  by (auto simp: NextToken_def Let_def)

lemma NextToken_advances:
  assumes ok: "cursor_ok l"
  shows "\<exists>t k. 0 < k \<and> NextToken l = Inr (t, (readChar ^^ k) l)"
proof -
  define w where "w = length (takeWhile isWhitespace (rest l))"
  define l1 where "l1 = skipWhitespace l"
  have l1: "l1 = (readChar ^^ w) l"
    unfolding l1_def w_def by (rule skipWhitespace_funpow [OF ok])
  have ok1: "cursor_ok l1" unfolding l1 by (rule funpow_readChar_ok [OF ok])
  consider (letter) "isLetter (ch l1)"
    | (digit) "isDigit (ch l1)"
    | (other) "\<not> isLetter (ch l1)" "\<not> isDigit (ch l1)" by blast
  then show ?thesis
  proof cases
    case letter
    have ne: "0 < length (takeWhile isLetter (rest l1)) \<and> position l1 < length (input l1)"
      by (rule run_nonempty [where p = isLetter, OF ok1 letter]) (simp add: isLetter_def)
    then have "readIdentifier l1 =
      Inr (takeWhile isLetter (rest l1), (readChar ^^ length (takeWhile isLetter (rest l1))) l1)"
      using readIdentifier_run [OF ok1] by simp
    with letter have "NextToken l =
      Inr (\<lparr> Type = LookupIdent (takeWhile isLetter (rest l1)),
              Literal = takeWhile isLetter (rest l1) \<rparr>,
           (readChar ^^ (length (takeWhile isLetter (rest l1)) + w)) l)"
      by (simp add: NextToken_letter l1_def [symmetric] l1 funpow_add)
    with ne show ?thesis by (intro exI conjI) (auto intro: trans)
  next
    case digit
    have ne: "0 < length (takeWhile isDigit (rest l1)) \<and> position l1 < length (input l1)"
      by (rule run_nonempty [where p = isDigit, OF ok1 digit]) (simp add: isDigit_def)
    then have "readNumber l1 =
      Inr (takeWhile isDigit (rest l1), (readChar ^^ length (takeWhile isDigit (rest l1))) l1)"
      using readNumber_run [OF ok1] by simp
    with digit have "NextToken l =
      Inr (\<lparr> Type = INT_tok, Literal = takeWhile isDigit (rest l1) \<rparr>,
           (readChar ^^ (length (takeWhile isDigit (rest l1)) + w)) l)"
      by (simp add: NextToken_digit l1_def [symmetric] l1 funpow_add)
    with ne show ?thesis by (intro exI conjI) (auto intro: trans)
  next
    case other
    from NextToken_other [of l] other obtain t where
      "NextToken l = Inr (t, readChar l1) \<or> NextToken l = Inr (t, readChar (readChar l1))"
      unfolding l1_def by blast
    then have "NextToken l = Inr (t, (readChar ^^ Suc w) l) \<or>
               NextToken l = Inr (t, (readChar ^^ Suc (Suc w)) l)"
      by (simp add: l1)
    then show ?thesis by (metis zero_less_Suc)
  qed
qed

lemma reachable_funpow: "reachable inp l \<Longrightarrow> reachable inp ((readChar ^^ k) l)"
  by (induction k) (simp_all add: reachable_readChar)









lemma cursor_ok_skipWhitespace:
  "cursor_ok l \<Longrightarrow> cursor_ok (skipWhitespace l) \<and> input (skipWhitespace l) = input l"
  by (simp add: skipWhitespace_funpow funpow_readChar_ok)

lemma rest_skipWhitespace:
  "cursor_ok l \<Longrightarrow> rest (skipWhitespace l) = dropWhile isWhitespace (rest l)"
  by (simp add: skipWhitespace_funpow funpow_readChar_rest dropWhile_eq_drop)

lemma reachable_skipWhitespace: "reachable inp l \<Longrightarrow> reachable inp (skipWhitespace l)"
  by (simp add: skipWhitespace_funpow reachable_cursor_ok reachable_funpow)

lemma rest_Cons:
  assumes "cursor_ok l" "rest l = c # r"
  shows "ch l = c" "rest (readChar l) = r" "position l < length (input l)"
proof -
  show "ch l = c" using assms by (simp add: ch_rest)
  show "rest (readChar l) = r" using assms by (simp add: rest_readChar)
  show "position l < length (input l)"
  proof (rule ccontr)
    assume "\<not> position l < length (input l)"
    then have "rest l = []" by (simp add: rest_def)
    with assms(2) show False by simp
  qed
qed

lemma NextToken_identifier:
  assumes ok: "cursor_ok l" and r: "dropWhile isWhitespace (rest l) = c # r" and c: "isLetter c"
  shows "NextToken l =
     Inr (\<lparr> Type = LookupIdent (takeWhile isLetter (c # r)),
             Literal = takeWhile isLetter (c # r) \<rparr>,
          (readChar ^^ length (takeWhile isLetter (c # r))) (skipWhitespace l))"
proof -
  define l1 where "l1 = skipWhitespace l"
  have ok1: "cursor_ok l1" unfolding l1_def using ok by (simp add: cursor_ok_skipWhitespace)
  have r1: "rest l1 = c # r" unfolding l1_def using ok r by (simp add: rest_skipWhitespace)
  from rest_Cons [OF ok1 r1] have "ch l1 = c" "position l1 \<le> length (input l1)" by simp_all
  with c readIdentifier_run [OF ok1] r1 show ?thesis
    by (simp add: NextToken_letter l1_def [symmetric])
qed

lemma NextToken_number:
  assumes ok: "cursor_ok l" and r: "dropWhile isWhitespace (rest l) = c # r" and c: "isDigit c"
  shows "NextToken l =
     Inr (\<lparr> Type = INT_tok, Literal = takeWhile isDigit (c # r) \<rparr>,
          (readChar ^^ length (takeWhile isDigit (c # r))) (skipWhitespace l))"
proof -
  define l1 where "l1 = skipWhitespace l"
  have ok1: "cursor_ok l1" unfolding l1_def using ok by (simp add: cursor_ok_skipWhitespace)
  have r1: "rest l1 = c # r" unfolding l1_def using ok r by (simp add: rest_skipWhitespace)
  from rest_Cons [OF ok1 r1] have "ch l1 = c" "position l1 \<le> length (input l1)" by simp_all
  with c readNumber_run [OF ok1] r1 show ?thesis
    by (simp add: NextToken_digit l1_def [symmetric])
qed

lemma peek_is_next: "ch (readChar l) = peekChar l"
  by (simp add: readChar_def peekChar_def)

lemma NextToken_equals:
  "ch (skipWhitespace l) = CHR ''='' \<Longrightarrow>
   NextToken l =
     (if peekChar (skipWhitespace l) = CHR ''=''
      then Inr (\<lparr> Type = EQ, Literal = ''=='' \<rparr>, readChar (readChar (skipWhitespace l)))
      else Inr (\<lparr> Type = ASSIGN, Literal = ''='' \<rparr>, readChar (skipWhitespace l)))"
  by (simp add: NextToken_def Let_def peek_is_next newToken_def newTwoCharToken_def
      string_of_byte_def)

lemma NextToken_bang:
  "ch (skipWhitespace l) = CHR ''!'' \<Longrightarrow>
   NextToken l =
     (if peekChar (skipWhitespace l) = CHR ''=''
      then Inr (\<lparr> Type = NOT_EQ, Literal = ''!='' \<rparr>, readChar (readChar (skipWhitespace l)))
      else Inr (\<lparr> Type = BANG, Literal = ''!'' \<rparr>, readChar (skipWhitespace l)))"
  by (simp add: NextToken_def Let_def peek_is_next newToken_def newTwoCharToken_def
      string_of_byte_def)


section \<open>The size of the cursor fields\<close>

text \<open>
  After \<open>n\<close> calls of \<open>NextToken\<close> on a lexer over an input of length \<open>m\<close>, \<open>position\<close>
  is at most \<open>m + n\<close> and \<open>readPosition\<close> at most \<open>m + n + 1\<close>: the natural numbers of
  the model are the values of the program's \<open>int\<close> fields in every run with
  \<open>m + n + 1\<close> below the largest \<open>int\<close>.
\<close>

lemma run_position_bound:
  assumes "cursor_ok l"
  shows "position ((readChar ^^ length (takeWhile p (rest l))) l)
         \<le> max (position l) (length (input l))"
proof -
  have "length (takeWhile p (rest l)) \<le> length (rest l)" by (rule length_takeWhile_le)
  also have "\<dots> = length (input l) - position l" by (simp add: rest_def)
  finally show ?thesis using assms by (simp add: funpow_readChar_position)
qed

lemma NextToken_other_bound:
  "\<not> isLetter (ch (skipWhitespace l)) \<Longrightarrow> \<not> isDigit (ch (skipWhitespace l)) \<Longrightarrow>
   \<exists>t. NextToken l = Inr (t, readChar (skipWhitespace l)) \<or>
       (NextToken l = Inr (t, readChar (readChar (skipWhitespace l))) \<and>
        peekChar (skipWhitespace l) = CHR ''='')"
  by (auto simp: NextToken_def Let_def)

lemma NextToken_position_bound:
  assumes ok: "cursor_ok l" and nt: "NextToken l = Inr (t, l')"
  shows "position l' \<le> max (position l) (length (input l)) + 1"
proof -
  define l1 where "l1 = skipWhitespace l"
  have ok1: "cursor_ok l1" and in1: "input l1 = input l"
    unfolding l1_def using ok by (simp_all add: cursor_ok_skipWhitespace)
  have p1: "position l1 \<le> max (position l) (length (input l))"
    unfolding l1_def using run_position_bound [OF ok, of isWhitespace]
    by (simp add: skipWhitespace_funpow [OF ok])
  consider (letter) "isLetter (ch l1)"
    | (digit) "isDigit (ch l1)"
    | (other) "\<not> isLetter (ch l1)" "\<not> isDigit (ch l1)" by blast
  then show ?thesis
  proof cases
    case letter
    have "position l1 < length (input l1)"
      using run_nonempty [where p = isLetter, OF ok1 letter] by (simp add: isLetter_def)
    with letter nt readIdentifier_run [OF ok1]
    have "l' = (readChar ^^ length (takeWhile isLetter (rest l1))) l1"
      by (simp add: NextToken_letter l1_def [symmetric])
    with run_position_bound [OF ok1, of isLetter] p1 in1 show ?thesis by simp
  next
    case digit
    have "position l1 < length (input l1)"
      using run_nonempty [where p = isDigit, OF ok1 digit] by (simp add: isDigit_def)
    with digit nt readNumber_run [OF ok1]
    have "l' = (readChar ^^ length (takeWhile isDigit (rest l1))) l1"
      by (simp add: NextToken_digit l1_def [symmetric])
    with run_position_bound [OF ok1, of isDigit] p1 in1 show ?thesis by simp
  next
    case other
    from NextToken_other_bound [of l] other nt
    have "l' = readChar l1 \<or> (l' = readChar (readChar l1) \<and> peekChar l1 = CHR ''='')"
      unfolding l1_def by auto
    then show ?thesis
    proof
      assume "l' = readChar l1"
      with ok1 p1 show ?thesis by (simp add: cursor_ok_def)
    next
      assume a: "l' = readChar (readChar l1) \<and> peekChar l1 = CHR ''=''"
      then have "readPosition l1 < length (input l1)"
        by (auto simp: peekChar_def split: if_splits)
      with a in1 show ?thesis by simp
    qed
  qed
qed

lemma nextTokens_position_bound:
  "cursor_ok l \<Longrightarrow> nextTokens n l = Inr (ts, l') \<Longrightarrow>
   cursor_ok l' \<and> input l' = input l \<and> position l' \<le> max (position l) (length (input l)) + n"
proof (induction n arbitrary: l ts)
  case 0
  then show ?case by simp
next
  case (Suc n)
  from NextToken_advances [OF Suc.prems(1)] obtain t k where
    nt: "NextToken l = Inr (t, (readChar ^^ k) l)" by blast
  define l1 where "l1 = (readChar ^^ k) l"
  have ok1: "cursor_ok l1" and in1: "input l1 = input l"
    unfolding l1_def using Suc.prems(1) by (simp_all add: funpow_readChar_ok)
  have b1: "position l1 \<le> max (position l) (length (input l)) + 1"
    unfolding l1_def using Suc.prems(1) nt by (rule NextToken_position_bound)
  from Suc.prems(2) nt obtain ts' where "nextTokens n l1 = Inr (ts', l')"
    by (auto simp: l1_def split: sum.splits)
  from Suc.IH [OF ok1 this] in1 b1 show ?case by auto
qed

lemma cursor_bound:
  assumes "nextTokens n (New inp) = Inr (ts, l)"
  shows "position l \<le> length inp + n \<and> readPosition l \<le> length inp + n + 1"
  using nextTokens_position_bound [OF cursor_ok_New assms]
  by (auto simp: cursor_ok_def New_def)

section \<open>The claims\<close>








text \<open>
  C3. \<open>NextToken\<close> decides between \<open>=\<close> and \<open>==\<close>, and between \<open>!\<close> and \<open>!=\<close>, by
  the character \<open>peekChar\<close> returns: the inputs \<open>==\<close> and \<open>!=\<close> give one token \<open>EQ\<close>
  (\<open>NOT_EQ\<close>) with the two-character literal and then \<open>EOF\<close>; the inputs \<open>!\<close> and \<open>=\<close>
  give \<open>BANG\<close> and \<open>ASSIGN\<close> with the one-character literal and then \<open>EOF\<close>; and in
  every state, with \<open>=\<close> (or \<open>!\<close>) under the cursor after the whitespace, the call
  returns the two-character token and advances twice if the next character is \<open>=\<close>,
  and the one-character token with one advance otherwise.
\<close>

theorem equals_bang_lookahead:
  "tokens 2 ''=='' = Inr [\<lparr> Type = EQ, Literal = ''=='' \<rparr>, \<lparr> Type = EOF, Literal = [] \<rparr>] \<and>
   tokens 2 ''!='' = Inr [\<lparr> Type = NOT_EQ, Literal = ''!='' \<rparr>, \<lparr> Type = EOF, Literal = [] \<rparr>] \<and>
   tokens 2 ''!'' = Inr [\<lparr> Type = BANG, Literal = ''!'' \<rparr>, \<lparr> Type = EOF, Literal = [] \<rparr>] \<and>
   tokens 2 ''='' = Inr [\<lparr> Type = ASSIGN, Literal = ''='' \<rparr>, \<lparr> Type = EOF, Literal = [] \<rparr>] \<and>
   (ch (skipWhitespace l) = CHR ''='' \<longrightarrow>
      NextToken l =
        (if peekChar (skipWhitespace l) = CHR ''=''
         then Inr (\<lparr> Type = EQ, Literal = ''=='' \<rparr>, readChar (readChar (skipWhitespace l)))
         else Inr (\<lparr> Type = ASSIGN, Literal = ''='' \<rparr>, readChar (skipWhitespace l)))) \<and>
   (ch (skipWhitespace l) = CHR ''!'' \<longrightarrow>
      NextToken l =
        (if peekChar (skipWhitespace l) = CHR ''=''
         then Inr (\<lparr> Type = NOT_EQ, Literal = ''!='' \<rparr>, readChar (readChar (skipWhitespace l)))
         else Inr (\<lparr> Type = BANG, Literal = ''!'' \<rparr>, readChar (skipWhitespace l))))"
proof -
  have "tokens 2 ''=='' = Inr [\<lparr> Type = EQ, Literal = ''=='' \<rparr>, \<lparr> Type = EOF, Literal = [] \<rparr>]"
    unfolding tokens_def by code_simp
  moreover
  have "tokens 2 ''!='' = Inr [\<lparr> Type = NOT_EQ, Literal = ''!='' \<rparr>, \<lparr> Type = EOF, Literal = [] \<rparr>]"
    unfolding tokens_def by code_simp
  moreover
  have "tokens 2 ''!'' = Inr [\<lparr> Type = BANG, Literal = ''!'' \<rparr>, \<lparr> Type = EOF, Literal = [] \<rparr>]"
    unfolding tokens_def by code_simp
  moreover
  have "tokens 2 ''='' = Inr [\<lparr> Type = ASSIGN, Literal = ''='' \<rparr>, \<lparr> Type = EOF, Literal = [] \<rparr>]"
    unfolding tokens_def by code_simp
  ultimately show ?thesis
    using NextToken_equals [of l] NextToken_bang [of l] by (intro conjI impI)
qed

text \<open>
  The theorem at the input \<open> !x\<close>: a \<open>!\<close> that is not followed by \<open>=\<close>.
\<close>

theorem equals_bang_lookahead_witness:
  "ch (skipWhitespace (New '' !x'')) = CHR ''!'' \<and>
   peekChar (skipWhitespace (New '' !x'')) = CHR ''x'' \<and>
   NextToken (New '' !x'') =
     Inr (\<lparr> Type = BANG, Literal = ''!'' \<rparr>,
          \<lparr> input = '' !x'', position = 2, readPosition = 3, ch = CHR ''x'' \<rparr>)"
proof -
  have s: "skipWhitespace (New '' !x'') =
           \<lparr> input = '' !x'', position = 1, readPosition = 2, ch = CHR ''!'' \<rparr>"
    by (simp add: skipWhitespace.simps New_def readChar_def isWhitespace_def)
  have c: "ch (skipWhitespace (New '' !x'')) = CHR ''!''" by (simp add: s)
  have p: "peekChar (skipWhitespace (New '' !x'')) = CHR ''x''" by (simp add: s peekChar_def)
  from equals_bang_lookahead [of "New '' !x''"] c
  have "NextToken (New '' !x'') =
        (if peekChar (skipWhitespace (New '' !x'')) = CHR ''=''
         then Inr (\<lparr> Type = NOT_EQ, Literal = ''!='' \<rparr>,
                   readChar (readChar (skipWhitespace (New '' !x''))))
         else Inr (\<lparr> Type = BANG, Literal = ''!'' \<rparr>, readChar (skipWhitespace (New '' !x''))))"
    by blast
  then have "NextToken (New '' !x'') =
     Inr (\<lparr> Type = BANG, Literal = ''!'' \<rparr>,
          \<lparr> input = '' !x'', position = 2, readPosition = 3, ch = CHR ''x'' \<rparr>)"
    by (simp add: p) (simp add: s readChar_def)
  with c p show ?thesis by blast
qed

text \<open>
  C4. \<open>LookupIdent\<close> returns \<open>FUNCTION\<close> for exactly the string \<open>fn\<close>, \<open>LET\<close> for exactly
  the string \<open>let\<close> and \<open>IDENT\<close> for every other string, among them strings that extend
  or shorten a keyword or differ from it in case; lexing \<open>fn\<close> gives \<open>FUNCTION\<close>, lexing
  \<open>fnx\<close> gives \<open>IDENT\<close> with the literal \<open>fnx\<close>.
\<close>

theorem LookupIdent_exact:
  "(LookupIdent s = FUNCTION \<longleftrightarrow> s = ''fn'') \<and>
   (LookupIdent s = LET \<longleftrightarrow> s = ''let'') \<and>
   (LookupIdent s = IDENT \<longleftrightarrow> s \<noteq> ''fn'' \<and> s \<noteq> ''let'') \<and>
   LookupIdent ''fnx'' = IDENT \<and> LookupIdent ''f'' = IDENT \<and>
   LookupIdent ''letter'' = IDENT \<and> LookupIdent ''le'' = IDENT \<and>
   LookupIdent ''Fn'' = IDENT \<and> LookupIdent ''FN'' = IDENT \<and>
   LookupIdent ''LET'' = IDENT \<and> LookupIdent ''Let'' = IDENT \<and>
   tokens 2 ''fn'' = Inr [\<lparr> Type = FUNCTION, Literal = ''fn'' \<rparr>, \<lparr> Type = EOF, Literal = [] \<rparr>] \<and>
   tokens 2 ''fnx'' = Inr [\<lparr> Type = IDENT, Literal = ''fnx'' \<rparr>, \<lparr> Type = EOF, Literal = [] \<rparr>]"
proof -
  have "tokens 2 ''fn'' =
        Inr [\<lparr> Type = FUNCTION, Literal = ''fn'' \<rparr>, \<lparr> Type = EOF, Literal = [] \<rparr>]"
    unfolding tokens_def by code_simp
  moreover have "tokens 2 ''fnx'' =
        Inr [\<lparr> Type = IDENT, Literal = ''fnx'' \<rparr>, \<lparr> Type = EOF, Literal = [] \<rparr>]"
    unfolding tokens_def by code_simp
  ultimately show ?thesis by (simp add: LookupIdent_def keywords_map_def)
qed

text \<open>
  C5. On the input \<open>let five = 5;\<close> six calls of \<open>NextToken\<close> return \<open>LET\<close> (\<open>let\<close>),
  \<open>IDENT\<close> (\<open>five\<close>), \<open>ASSIGN\<close> (\<open>=\<close>), \<open>INT\<close> (\<open>5\<close>), \<open>SEMICOLON\<close> (\<open>;\<close>) and
  \<open>EOF\<close> with the empty literal. In general, in a reachable state whose input from
  the cursor on is whitespace followed by \<open>c # r\<close>: if \<open>c\<close> is a letter the call
  returns the longest run of letters at the start of \<open>c # r\<close> as the literal, with the
  type \<open>LookupIdent\<close> gives it, and if \<open>c\<close> is a digit it returns the longest run of
  digits as an \<open>INT\<close>; in both cases the cursor is left on the first character after
  the run, and the whitespace gives no token.
\<close>

theorem let_five_tokens:
  assumes "reachable inp l" and "dropWhile isWhitespace (rest l) = c # r"
  shows "tokens 6 ''let five = 5;'' =
           Inr [\<lparr> Type = LET, Literal = ''let'' \<rparr>, \<lparr> Type = IDENT, Literal = ''five'' \<rparr>,
                \<lparr> Type = ASSIGN, Literal = ''='' \<rparr>, \<lparr> Type = INT_tok, Literal = ''5'' \<rparr>,
                \<lparr> Type = SEMICOLON, Literal = '';'' \<rparr>, \<lparr> Type = EOF, Literal = [] \<rparr>] \<and>
         (isLetter c \<longrightarrow>
            (\<exists>l'. NextToken l =
                    Inr (\<lparr> Type = LookupIdent (takeWhile isLetter (c # r)),
                            Literal = takeWhile isLetter (c # r) \<rparr>, l') \<and>
                  reachable inp l' \<and> rest l' = dropWhile isLetter (c # r))) \<and>
         (isDigit c \<longrightarrow>
            (\<exists>l'. NextToken l =
                    Inr (\<lparr> Type = INT_tok, Literal = takeWhile isDigit (c # r) \<rparr>, l') \<and>
                  reachable inp l' \<and> rest l' = dropWhile isDigit (c # r)))"
proof -
  from assms(1) have ok: "cursor_ok l" by (simp add: reachable_cursor_ok)
  have ok1: "cursor_ok (skipWhitespace l)" using ok by (simp add: cursor_ok_skipWhitespace)
  have r1: "rest (skipWhitespace l) = c # r" using ok assms(2) by (simp add: rest_skipWhitespace)
  have re: "reachable inp ((readChar ^^ k) (skipWhitespace l))" for k
    using assms(1) by (intro reachable_funpow reachable_skipWhitespace)
  have rs: "rest ((readChar ^^ length (takeWhile p (c # r))) (skipWhitespace l)) =
            dropWhile p (c # r)" for p
    using funpow_readChar_rest [OF ok1, of "length (takeWhile p (c # r))"] r1
    by (simp only: dropWhile_eq_drop)
  have ex: "tokens 6 ''let five = 5;'' =
           Inr [\<lparr> Type = LET, Literal = ''let'' \<rparr>, \<lparr> Type = IDENT, Literal = ''five'' \<rparr>,
                \<lparr> Type = ASSIGN, Literal = ''='' \<rparr>, \<lparr> Type = INT_tok, Literal = ''5'' \<rparr>,
                \<lparr> Type = SEMICOLON, Literal = '';'' \<rparr>, \<lparr> Type = EOF, Literal = [] \<rparr>]"
    unfolding tokens_def by code_simp
  have id: "isLetter c \<longrightarrow>
            (\<exists>l'. NextToken l =
                    Inr (\<lparr> Type = LookupIdent (takeWhile isLetter (c # r)),
                            Literal = takeWhile isLetter (c # r) \<rparr>, l') \<and>
                  reachable inp l' \<and> rest l' = dropWhile isLetter (c # r))"
    using NextToken_identifier [OF ok assms(2)] re rs [of isLetter] by blast
  have nu: "isDigit c \<longrightarrow>
            (\<exists>l'. NextToken l =
                    Inr (\<lparr> Type = INT_tok, Literal = takeWhile isDigit (c # r) \<rparr>, l') \<and>
                  reachable inp l' \<and> rest l' = dropWhile isDigit (c # r))"
    using NextToken_number [OF ok assms(2)] re rs [of isDigit] by blast
  from ex id nu show ?thesis by (intro conjI)
qed

text \<open>
  The theorem at the input \<open> ab1\<close>: the identifier \<open>ab\<close>, with the cursor left on \<open>1\<close>.
\<close>

theorem let_five_tokens_witness:
  "reachable '' ab1'' (New '' ab1'') \<and>
   dropWhile isWhitespace (rest (New '' ab1'')) = ''ab1'' \<and> isLetter (CHR ''a'') \<and>
   (\<exists>l'. NextToken (New '' ab1'') = Inr (\<lparr> Type = IDENT, Literal = ''ab'' \<rparr>, l') \<and>
      rest l' = ''1'')"
proof -
  have r: "reachable '' ab1'' (New '' ab1'')" by (rule reachable_New)
  have d: "dropWhile isWhitespace (rest (New '' ab1'')) = CHR ''a'' # ''b1''"
    by (simp add: rest_def New_def readChar_def isWhitespace_def)
  have a: "isLetter (CHR ''a'')" by (simp add: isLetter_def)
  have t: "takeWhile isLetter ''ab1'' = ''ab''" "dropWhile isLetter ''ab1'' = ''1''"
    by (simp_all add: isLetter_def)
  have k: "LookupIdent ''ab'' = IDENT" by (simp add: LookupIdent_def keywords_map_def)
  from let_five_tokens [OF r d] a
  have "\<exists>l'. NextToken (New '' ab1'') =
       Inr (\<lparr> Type = LookupIdent (takeWhile isLetter ''ab1''),
               Literal = takeWhile isLetter ''ab1'' \<rparr>, l') \<and>
       reachable '' ab1'' l' \<and> rest l' = dropWhile isLetter ''ab1''" by blast
  then have "\<exists>l'. NextToken (New '' ab1'') = Inr (\<lparr> Type = IDENT, Literal = ''ab'' \<rparr>, l') \<and>
      rest l' = ''1''"
    unfolding t k by blast
  with r d a show ?thesis by blast
qed









text \<open>
  C9. In a reachable state whose input from the cursor on is whitespace followed by a
  NUL byte and the bytes \<open>r\<close>, \<open>NextToken\<close> returns the \<open>EOF\<close> token with the empty
  literal although the input is not exhausted (\<open>position\<close> is below its length), and
  advances past the NUL byte, so that the next call lexes \<open>r\<close>. For the three bytes
  \<open>a\<close>, 0x00, \<open>b\<close> the calls return \<open>IDENT\<close> (\<open>a\<close>), \<open>EOF\<close>, \<open>IDENT\<close> (\<open>b\<close>), \<open>EOF\<close>,
  \<open>EOF\<close>.
\<close>

theorem NUL_byte_yields_EOF:
  assumes "reachable inp l" and "dropWhile isWhitespace (rest l) = CHR 0x00 # r"
  shows "NextToken l = Inr (\<lparr> Type = EOF, Literal = [] \<rparr>, readChar (skipWhitespace l)) \<and>
         position (skipWhitespace l) < length inp \<and>
         inp ! position (skipWhitespace l) = CHR 0x00 \<and>
         position (readChar (skipWhitespace l)) = position (skipWhitespace l) + 1 \<and>
         rest (readChar (skipWhitespace l)) = r \<and>
         reachable inp (readChar (skipWhitespace l)) \<and>
         tokens 5 [CHR ''a'', CHR 0x00, CHR ''b''] =
           Inr [\<lparr> Type = IDENT, Literal = ''a'' \<rparr>, \<lparr> Type = EOF, Literal = [] \<rparr>,
                \<lparr> Type = IDENT, Literal = ''b'' \<rparr>, \<lparr> Type = EOF, Literal = [] \<rparr>,
                \<lparr> Type = EOF, Literal = [] \<rparr>]"
proof -
  from assms(1) have ok: "cursor_ok l" and inp: "input l = inp"
    by (simp_all add: reachable_cursor_ok)
  have ok1: "cursor_ok (skipWhitespace l)" and in1: "input (skipWhitespace l) = inp"
    using ok inp by (simp_all add: cursor_ok_skipWhitespace)
  have r1: "rest (skipWhitespace l) = CHR 0x00 # r"
    using ok assms(2) by (simp add: rest_skipWhitespace)
  from rest_Cons [OF ok1 r1] in1
  have c: "ch (skipWhitespace l) = CHR 0x00" and rr: "rest (readChar (skipWhitespace l)) = r"
    and lt: "position (skipWhitespace l) < length inp" by simp_all
  from c have "NextToken l = Inr (\<lparr> Type = EOF, Literal = [] \<rparr>, readChar (skipWhitespace l))"
    by (simp add: NextToken_def Let_def)
  moreover from ok1 lt c in1 have "inp ! position (skipWhitespace l) = CHR 0x00"
    by (simp add: cursor_ok_def)
  moreover from ok1
  have "position (readChar (skipWhitespace l)) = position (skipWhitespace l) + 1"
    by (simp add: cursor_ok_def)
  moreover have "reachable inp (readChar (skipWhitespace l))"
    using assms(1) by (intro reachable_readChar reachable_skipWhitespace)
  moreover have "tokens 5 [CHR ''a'', CHR 0x00, CHR ''b''] =
           Inr [\<lparr> Type = IDENT, Literal = ''a'' \<rparr>, \<lparr> Type = EOF, Literal = [] \<rparr>,
                \<lparr> Type = IDENT, Literal = ''b'' \<rparr>, \<lparr> Type = EOF, Literal = [] \<rparr>,
                \<lparr> Type = EOF, Literal = [] \<rparr>]"
    unfolding tokens_def by code_simp
  ultimately show ?thesis using rr lt by (intro conjI)
qed

text \<open>
  The theorem at the state after one advance over the bytes \<open>a\<close>, 0x00, \<open>b\<close>.
\<close>

theorem NUL_byte_yields_EOF_witness:
  "reachable [CHR ''a'', CHR 0x00, CHR ''b''] (readChar (New [CHR ''a'', CHR 0x00, CHR ''b''])) \<and>
   dropWhile isWhitespace (rest (readChar (New [CHR ''a'', CHR 0x00, CHR ''b''])))
     = [CHR 0x00, CHR ''b''] \<and>
   NextToken (readChar (New [CHR ''a'', CHR 0x00, CHR ''b''])) =
     Inr (\<lparr> Type = EOF, Literal = [] \<rparr>,
          \<lparr> input = [CHR ''a'', CHR 0x00, CHR ''b''], position = 2, readPosition = 3,
            ch = CHR ''b'' \<rparr>)"
proof -
  let ?inp = "[CHR ''a'', CHR 0x00, CHR ''b'']"
  have r: "reachable ?inp (readChar (New ?inp))"
    by (intro reachable_readChar reachable_New)
  have d: "dropWhile isWhitespace (rest (readChar (New ?inp))) = CHR 0x00 # ''b''"
    by (simp add: rest_def New_def readChar_def isWhitespace_def)
  have s: "readChar (skipWhitespace (readChar (New ?inp))) =
           \<lparr> input = ?inp, position = 2, readPosition = 3, ch = CHR ''b'' \<rparr>"
    by (simp add: skipWhitespace.simps New_def readChar_def isWhitespace_def)
  from NUL_byte_yields_EOF [OF r d]
  have "NextToken (readChar (New ?inp)) =
        Inr (\<lparr> Type = EOF, Literal = [] \<rparr>, readChar (skipWhitespace (readChar (New ?inp))))"
    by blast
  with r d s show ?thesis by simp
qed



end
